theory Spec2Isabelle
  imports Complex_Main
begin

section \<open>Data model of the rotational-molding scheduler (src/one.py)\<close>

text \<open>
  The Python classes are embedded as records, their methods as functions on the record
  that take the object as first argument. A method that mutates its object returns the
  updated record. A Python number is a \<open>real\<close>, a count an \<open>int\<close>, and
  arithmetic is exact, as it is on Python ints. Python floats round: where a result
  below would depend on the rounding, the operation is a parameter (the subtraction
  in the loop of \<open>minimize_weight_count\<close>) or the literal is written as the binary
  fraction it denotes (\<open>mold2\<close>). The exceptions the modelled code can raise are
  the division by zero of \<open>check_compatibility_with\<close> and the missing key of a
  dict subscript; they are values of the result type.
\<close>

datatype py_error = ZeroDivisionError | KeyError

record Mold =
  mold_id :: string
  volume :: real
  weight :: real
  heating_time :: real
  heating_temperature :: real
  cooling_time :: real
  mounting_time :: real
  distance_from_center :: real
  available_quantity :: int

text \<open>The Mold of src/molds_class_complete.py has one more attribute.\<close>

record CatalogMold = Mold +
  mold_type :: string

record Spider =
  spider_type :: string
  attachment_sites :: int
  volume :: real
  weight :: real
  attachment_distance :: real

record BalancingWeight =
  weight_options :: "real list"
  position :: string
  weight :: real

record Arm =
  arm_id :: string
  mounting_spots :: int
  max_volume :: real
  weight_capacity :: real
  torque_left_side :: real
  torque_right_side :: real
  current_molds :: "Mold list"
  current_spiders :: "Spider list"

record RTXMachine =
  machine_id :: string
  machine_count :: int
  arms_list :: "Arm list"
  current_cycle :: int
  daily_cycles_completed :: int
  max_daily_cycles :: int

text \<open>
  A Python dict keeps its keys in insertion order; it is an association list with at
  most one entry per key: \<open>map_of d k\<close> is \<open>None\<close> when \<open>k not in d\<close>,
  \<open>dict_get\<close> is the subscript \<open>d[k]\<close> and \<open>dict_set\<close> the assignment
  \<open>d[k] = v\<close>, which keeps the place of a key that is present.
\<close>

type_synonym ('k, 'v) dict = "('k \<times> 'v) list"

fun dict_set :: "('k, 'v) dict \<Rightarrow> 'k \<Rightarrow> 'v \<Rightarrow> ('k, 'v) dict" where
  "dict_set [] k v = [(k, v)]"
| "dict_set ((k', v') # d) k v = (if k' = k then (k, v) # d else (k', v') # dict_set d k v)"

definition dict_get :: "('k, 'v) dict \<Rightarrow> 'k \<Rightarrow> py_error + 'v" where
  "dict_get d k = (case map_of d k of None \<Rightarrow> Inl KeyError | Some v \<Rightarrow> Inr v)"

record Order =
  order_id :: string
  mold_requirements :: "(string, int) dict"
  deadline :: string
  completion_status :: "(string, int) dict"
  is_complete :: bool

section \<open>Mold\<close>

definition calculate_torque :: "'a Mold_scheme \<Rightarrow> real" where
  "calculate_torque self = Mold.weight self * distance_from_center self"

definition get_cycle_time :: "'a Mold_scheme \<Rightarrow> real" where
  "get_cycle_time self = heating_time self + cooling_time self + mounting_time self"

definition check_availability :: "'a Mold_scheme \<Rightarrow> int \<Rightarrow> bool" where
  "check_availability self required_quantity \<longleftrightarrow> required_quantity \<le> available_quantity self"

text \<open>
  \<open>check_compatibility_with\<close> computes \<open>temp_diff\<close> first, then \<open>time_diff\<close>;
  each division raises when its divisor is zero.
\<close>

definition py_div :: "real \<Rightarrow> real \<Rightarrow> py_error + real" where
  "py_div a b = (if b = 0 then Inl ZeroDivisionError else Inr (a / b))"

definition check_compatibility_with ::
    "'a Mold_scheme \<Rightarrow> 'b Mold_scheme \<Rightarrow> real \<Rightarrow> real \<Rightarrow> py_error + bool" where
  "check_compatibility_with self other_mold temp_tolerance time_tolerance =
     (case py_div \<bar>heating_temperature self - heating_temperature other_mold\<bar>
             (heating_temperature self) of
        Inl e \<Rightarrow> Inl e
      | Inr temp_diff \<Rightarrow>
          (case py_div \<bar>heating_time self - heating_time other_mold\<bar> (heating_time self) of
             Inl e \<Rightarrow> Inl e
           | Inr time_diff \<Rightarrow>
               Inr (temp_diff \<le> temp_tolerance \<and> time_diff \<le> time_tolerance)))"

text \<open>The default of both tolerance parameters.\<close>

definition default_tolerance :: real where
  "default_tolerance = 2 / 100"

definition compatible_default :: "'a Mold_scheme \<Rightarrow> 'b Mold_scheme \<Rightarrow> py_error + bool" where
  "compatible_default self other_mold =
     check_compatibility_with self other_mold default_tolerance default_tolerance"

text \<open>The molds that the demonstration of src/one.py builds.\<close>

definition mold1 :: Mold where
  "mold1 = \<lparr>mold_id = ''A1'', volume = 10, weight = 5, heating_time = 3,
     heating_temperature = 200, cooling_time = 2, mounting_time = 1,
     distance_from_center = 5 / 10, available_quantity = 100\<rparr>"

text \<open>
  The second mold is built from the literals 3.06 and 0.4, which are not binary
  fractions: its fields hold the values these literals denote as 64-bit floats,
  3.06 as 6890507429876859 / 2^51 and 0.4 as 3602879701896397 / 2^53.
\<close>

definition mold2 :: Mold where
  "mold2 = \<lparr>mold_id = ''A2'', volume = 12, weight = 8,
     heating_time = 6890507429876859 / 2251799813685248,
     heating_temperature = 203, cooling_time = 15 / 10, mounting_time = 1,
     distance_from_center = 3602879701896397 / 9007199254740992,
     available_quantity = 30\<rparr>"

definition mold3 :: Mold where
  "mold3 = \<lparr>mold_id = ''A3'', volume = 0, weight = 0, heating_time = 0,
     heating_temperature = 0, cooling_time = 0, mounting_time = 0,
     distance_from_center = 0, available_quantity = 0\<rparr>"

definition mold4 :: Mold where
  "mold4 = \<lparr>mold_id = ''A4'', volume = 5, weight = 2, heating_time = 10,
     heating_temperature = 270, cooling_time = 2, mounting_time = 1,
     distance_from_center = 5 / 10, available_quantity = 10\<rparr>"

section \<open>Arm\<close>

definition check_spatial_constraint :: "Arm \<Rightarrow> bool" where
  "check_spatial_constraint self \<longleftrightarrow>
     (let total_volume = sum_list (map Mold.volume (current_molds self));
          total_volume = total_volume + sum_list (map Spider.volume (current_spiders self))
      in total_volume \<le> max_volume self)"

definition calculate_balance_torque :: "Arm \<Rightarrow> real" where
  "calculate_balance_torque self =
     foldl (\<lambda>net_torque mold. net_torque + calculate_torque mold)
       (torque_right_side self - torque_left_side self) (current_molds self)"

definition check_balance_constraint :: "Arm \<Rightarrow> real \<Rightarrow> bool" where
  "check_balance_constraint self tolerance \<longleftrightarrow> \<bar>calculate_balance_torque self\<bar> \<le> tolerance"

definition add_balancing_weight :: "Arm \<Rightarrow> real \<Rightarrow> string \<Rightarrow> Arm" where
  "add_balancing_weight self w pos =
     (if pos = ''left'' then self\<lparr>torque_left_side := torque_left_side self + w * 1\<rparr>
      else if pos = ''right'' then self\<lparr>torque_right_side := torque_right_side self + w * 1\<rparr>
      else self)"

text \<open>
  The loop of \<open>check_torque_balance\<close> over the local variables
  \<open>(temp_left, temp_right)\<close>.
\<close>

fun torque_balance_loop :: "real \<times> real \<Rightarrow> BalancingWeight list \<Rightarrow> real \<times> real" where
  "torque_balance_loop (temp_left, temp_right) [] = (temp_left, temp_right)"
| "torque_balance_loop (temp_left, temp_right) (w # ws) =
     (if position w = ''left''
      then torque_balance_loop (temp_left + BalancingWeight.weight w, temp_right) ws
      else torque_balance_loop (temp_left, temp_right + BalancingWeight.weight w) ws)"

text \<open>The method returns the arm as it leaves it, and its answer.\<close>

definition check_torque_balance :: "Arm \<Rightarrow> BalancingWeight list \<Rightarrow> Arm \<times> bool" where
  "check_torque_balance self balancing_weights =
     (case torque_balance_loop (torque_left_side self, torque_right_side self) balancing_weights of
        (temp_left, temp_right) \<Rightarrow> (self, \<bar>temp_right - temp_left\<bar> \<le> 1 / 10))"

fun temperature_loop :: "Mold \<Rightarrow> Mold list \<Rightarrow> py_error + bool" where
  "temperature_loop first [] = Inr True"
| "temperature_loop first (mold # molds) =
     (case compatible_default first mold of
        Inl e \<Rightarrow> Inl e
      | Inr ok \<Rightarrow> if \<not> ok then Inr False else temperature_loop first molds)"

definition check_temperature_compatibility :: "Arm \<Rightarrow> py_error + bool" where
  "check_temperature_compatibility self =
     (if length (current_molds self) \<le> 1 then Inr True
      else temperature_loop (current_molds self ! 0) (drop 1 (current_molds self)))"

fun duration_loop :: "Mold list \<Rightarrow> nat list \<Rightarrow> py_error + bool" where
  "duration_loop molds [] = Inr True"
| "duration_loop molds (i # is) =
     (case compatible_default (molds ! i) (molds ! (i + 1)) of
        Inl e \<Rightarrow> Inl e
      | Inr ok \<Rightarrow> if \<not> ok then Inr False else duration_loop molds is)"

definition check_duration_compatibility :: "Arm \<Rightarrow> py_error + bool" where
  "check_duration_compatibility self =
     (if length (current_molds self) \<le> 1 then Inr True
      else duration_loop (current_molds self) [0..<length (current_molds self) - 1])"

text \<open>An arm as its constructor leaves it, and an arm with molds mounted.\<close>

definition new_Arm :: "string \<Rightarrow> int \<Rightarrow> real \<Rightarrow> real \<Rightarrow> real \<Rightarrow> real \<Rightarrow> Arm" where
  "new_Arm aid spots mv wc left right =
     \<lparr>arm_id = aid, mounting_spots = spots, max_volume = mv, weight_capacity = wc,
      torque_left_side = left, torque_right_side = right,
      current_molds = [], current_spiders = []\<rparr>"

definition mold_at :: "real \<Rightarrow> Mold" where
  "mold_at temp = mold1\<lparr>heating_temperature := temp\<rparr>"

definition arm_with :: "Mold list \<Rightarrow> Arm" where
  "arm_with molds = (new_Arm ''arm'' 4 100 100 0 0)\<lparr>current_molds := molds\<rparr>"

definition weight_at :: "string \<Rightarrow> real \<Rightarrow> BalancingWeight" where
  "weight_at pos w = \<lparr>weight_options = [w], position = pos, weight = w\<rparr>"

section \<open>RTXMachine\<close>

text \<open>Python's \<open>str\<close> of an integer, as the f-strings of the messages use it.\<close>

definition digit_char :: "nat \<Rightarrow> char" where
  "digit_char d = ''0123456789'' ! d"

function str_nat :: "nat \<Rightarrow> string" where
  "str_nat n = (if n < 10 then [digit_char n] else str_nat (n div 10) @ [digit_char (n mod 10)])"
  by pat_completeness auto
termination
  by (relation "measure id") auto

definition str_int :: "int \<Rightarrow> string" where
  "str_int i = (if i < 0 then CHR ''-'' # str_nat (nat (- i)) else str_nat (nat i))"

definition new_RTXMachine :: "string \<Rightarrow> int \<Rightarrow> RTXMachine" where
  "new_RTXMachine mid cnt =
     \<lparr>machine_id = mid, machine_count = cnt, arms_list = [], current_cycle = 0,
      daily_cycles_completed = 0, max_daily_cycles = 7\<rparr>"

text \<open>The default of the tolerance parameter of \<open>check_balance_constraint\<close>.\<close>

definition balance_tolerance :: real where
  "balance_tolerance = 1 / 10"

fun validate_loop :: "Arm list \<Rightarrow> py_error + (bool \<times> string)" where
  "validate_loop [] = Inr (True, ''All constraints satisfied'')"
| "validate_loop (arm # arms) =
     (if \<not> check_spatial_constraint arm
      then Inr (False, ''Spatial constraint violated on arm '' @ arm_id arm)
      else if \<not> check_balance_constraint arm balance_tolerance
      then Inr (False, ''Balance constraint violated on arm '' @ arm_id arm)
      else case check_temperature_compatibility arm of
        Inl e \<Rightarrow> Inl e
      | Inr temperature_ok \<Rightarrow>
          if \<not> temperature_ok
          then Inr (False, ''Temperature compatibility failed on arm '' @ arm_id arm)
          else case check_duration_compatibility arm of
            Inl e \<Rightarrow> Inl e
          | Inr duration_ok \<Rightarrow>
              if \<not> duration_ok
              then Inr (False, ''Duration compatibility failed on arm '' @ arm_id arm)
              else validate_loop arms)"

definition validate_arrangement :: "RTXMachine \<Rightarrow> py_error + (bool \<times> string)" where
  "validate_arrangement self = validate_loop (arms_list self)"

definition execute_cycle :: "RTXMachine \<Rightarrow> py_error + (RTXMachine \<times> bool \<times> string)" where
  "execute_cycle self =
     (case validate_arrangement self of
        Inl e \<Rightarrow> Inl e
      | Inr (is_valid, message) \<Rightarrow>
          if \<not> is_valid then Inr (self, False, message)
          else if daily_cycles_completed self \<ge> max_daily_cycles self
          then Inr (self, False, ''Daily cycle limit reached'')
          else
            let self = self\<lparr>current_cycle := current_cycle self + 1\<rparr>;
                self = self\<lparr>daily_cycles_completed := daily_cycles_completed self + 1\<rparr>
            in Inr (self, True,
                 ''Cycle '' @ str_int (current_cycle self) @ '' completed successfully''))"

definition change_arrangement :: "RTXMachine \<Rightarrow> int \<Rightarrow> RTXMachine \<times> string" where
  "change_arrangement self setup_time_loss =
     (let cycles_lost = setup_time_loss;
          self = self\<lparr>max_daily_cycles := max 0 (max_daily_cycles self - cycles_lost)\<rparr>
      in (self, ''Arrangement changed, '' @ str_int cycles_lost @ '' cycles lost to setup''))"

text \<open>An arm passes when each of the four checks of \<open>validate_arrangement\<close> succeeds.\<close>

definition arm_passes :: "Arm \<Rightarrow> bool" where
  "arm_passes arm \<longleftrightarrow>
     check_spatial_constraint arm \<and> check_balance_constraint arm balance_tolerance \<and>
     check_temperature_compatibility arm = Inr True \<and>
     check_duration_compatibility arm = Inr True"

text \<open>Machines for the examples: an empty arm passes every check.\<close>

definition good_arm :: Arm where
  "good_arm = new_Arm ''A'' 4 100 100 0 0"

definition machine_with :: "Arm list \<Rightarrow> int \<Rightarrow> RTXMachine" where
  "machine_with arms completed =
     (new_RTXMachine ''RTX'' 1)\<lparr>arms_list := arms, daily_cycles_completed := completed\<rparr>"

section \<open>Order\<close>

definition new_Order :: "string \<Rightarrow> (string, int) dict \<Rightarrow> string \<Rightarrow> Order" where
  "new_Order oid requirements dl =
     \<lparr>order_id = oid, mold_requirements = requirements, deadline = dl,
      completion_status = [], is_complete = False\<rparr>"

definition update_progress :: "Order \<Rightarrow> string \<Rightarrow> int \<Rightarrow> py_error + Order" where
  "update_progress self mid quantity_produced =
     (let status = (if map_of (completion_status self) mid = None
                    then dict_set (completion_status self) mid 0
                    else completion_status self)
      in case dict_get status mid of
        Inl e \<Rightarrow> Inl e
      | Inr tracked \<Rightarrow>
          let status = dict_set status mid (tracked + quantity_produced)
          in case map_of (mold_requirements self) mid of
            None \<Rightarrow> Inr (self\<lparr>completion_status := status\<rparr>)
          | Some required \<Rightarrow>
              (case dict_get status mid of
                 Inl e \<Rightarrow> Inl e
               | Inr new_total \<Rightarrow>
                   if new_total \<ge> required
                   then Inr (self\<lparr>completion_status := dict_set status mid required\<rparr>)
                   else Inr (self\<lparr>completion_status := status\<rparr>)))"

fun completion_loop :: "(string \<times> int) list \<Rightarrow> (string, int) dict \<Rightarrow> bool" where
  "completion_loop [] status = True"
| "completion_loop ((mid, required_qty) # items) status =
     (let completed_qty = (case map_of status mid of None \<Rightarrow> 0 | Some v \<Rightarrow> v)
      in if completed_qty < required_qty then False else completion_loop items status)"

definition check_completion :: "Order \<Rightarrow> Order \<times> bool" where
  "check_completion self =
     (let complete = completion_loop (mold_requirements self) (completion_status self)
      in (self\<lparr>is_complete := complete\<rparr>, complete))"

text \<open>A sequence of \<open>update_progress\<close> calls, each given as (mold id, quantity).\<close>

fun update_all :: "Order \<Rightarrow> (string \<times> int) list \<Rightarrow> py_error + Order" where
  "update_all self [] = Inr self"
| "update_all self ((mid, quantity_produced) # calls) =
     (case update_progress self mid quantity_produced of
        Inl e \<Rightarrow> Inl e
      | Inr self' \<Rightarrow> update_all self' calls)"

text \<open>
  The invariant of the data model: no tracked quantity of a required mold exceeds its
  requirement.
\<close>

definition within_requirement :: "(string, int) dict \<Rightarrow> string \<times> int \<Rightarrow> bool" where
  "within_requirement requirements entry =
     (case map_of requirements (fst entry) of None \<Rightarrow> True | Some required \<Rightarrow> snd entry \<le> required)"

definition clamped :: "Order \<Rightarrow> bool" where
  "clamped self = list_all (within_requirement (mold_requirements self)) (completion_status self)"

text \<open>What \<open>update_progress\<close> leaves as the tracked new_total of the mold it is called on.\<close>

definition tracked_after :: "Order \<Rightarrow> string \<Rightarrow> int \<Rightarrow> int" where
  "tracked_after self mid quantity_produced =
     (let new_total = (case map_of (completion_status self) mid of None \<Rightarrow> 0 | Some v \<Rightarrow> v)
                  + quantity_produced
      in case map_of (mold_requirements self) mid of
           None \<Rightarrow> new_total
         | Some required \<Rightarrow> min required new_total)"

section \<open>BalancingWeight\<close>

definition new_BalancingWeight :: "real list \<Rightarrow> string \<Rightarrow> BalancingWeight" where
  "new_BalancingWeight options pos = \<lparr>weight_options = options, position = pos, weight = 0\<rparr>"

text \<open>\<open>sorted(weight_options, reverse=True)\<close>: the options in descending order.\<close>

definition sorted_reverse :: "real list \<Rightarrow> real list" where
  "sorted_reverse xs = rev (sort xs)"

text \<open>
  The inner \<open>while\<close> loop of \<open>minimize_weight_count\<close>, on the local variables
  \<open>(remaining_torque, weights_needed)\<close>. The subtraction of
  \<open>remaining_torque -= weight\<close> is the parameter \<open>sub\<close>: Python subtracts ints
  exactly and rounds the difference of floats, so that a subtraction may return the
  remaining torque unchanged. Nothing is assumed of \<open>sub\<close> here, and nothing bounds
  the iterations of the loop, so its result is optional: \<open>None\<close> is a loop that never
  ends.
\<close>

partial_function (option) subtract_while ::
    "(real \<Rightarrow> real \<Rightarrow> real) \<Rightarrow> real \<Rightarrow> real \<Rightarrow> int \<Rightarrow> (real \<times> int) option" where
  "subtract_while sub w remaining_torque weights_needed =
     (if w \<le> remaining_torque
      then subtract_while sub w (sub remaining_torque w) (weights_needed + 1)
      else Some (remaining_torque, weights_needed))"

declare subtract_while.simps [code]

fun minimize_loop ::
    "(real \<Rightarrow> real \<Rightarrow> real) \<Rightarrow> real list \<Rightarrow> real \<Rightarrow> int \<Rightarrow> (real \<times> int) option" where
  "minimize_loop sub [] remaining_torque weights_needed =
     Some (remaining_torque, weights_needed)"
| "minimize_loop sub (w # ws) remaining_torque weights_needed =
     (case subtract_while sub w remaining_torque weights_needed of
        None \<Rightarrow> None
      | Some (remaining_torque', weights_needed') \<Rightarrow>
          minimize_loop sub ws remaining_torque' weights_needed')"

definition minimize_weight_count ::
    "(real \<Rightarrow> real \<Rightarrow> real) \<Rightarrow> BalancingWeight \<Rightarrow> real \<Rightarrow> int option" where
  "minimize_weight_count sub self target_torque =
     map_option snd
       (minimize_loop sub (sorted_reverse (weight_options self)) \<bar>target_torque\<bar> 0)"

text \<open>
  The greedy procedure in the words of the specification, with the same subtraction:
  as long as some option fits into the remaining deficit, subtract the largest option
  that fits and count it.
\<close>

partial_function (option) greedy_count ::
    "(real \<Rightarrow> real \<Rightarrow> real) \<Rightarrow> real list \<Rightarrow> real \<Rightarrow> int \<Rightarrow> int option" where
  "greedy_count sub options deficit used =
     (case filter (\<lambda>w. w \<le> deficit) options of
        [] \<Rightarrow> Some used
      | w # ws \<Rightarrow> greedy_count sub options (sub deficit (Max (set (w # ws)))) (used + 1))"

declare greedy_count.simps [code]

text \<open>
  What the results below ask of the subtraction. \<open>exact_on sub w r\<close>: subtracting
  \<open>w\<close> is exact on the values that the loop reaches from \<open>r\<close>, as it is for ints.
  \<open>lowers sub options\<close>: subtracting an option that fits leaves a deficit between 0
  and the old one, as exact and rounded subtraction both do for a positive option.
\<close>

definition exact_on :: "(real \<Rightarrow> real \<Rightarrow> real) \<Rightarrow> real \<Rightarrow> real \<Rightarrow> bool" where
  "exact_on sub w r \<longleftrightarrow>
     (\<forall>j::nat. w \<le> r - real j * w \<longrightarrow> sub (r - real j * w) w = r - real j * w - w)"

definition lowers :: "(real \<Rightarrow> real \<Rightarrow> real) \<Rightarrow> real list \<Rightarrow> bool" where
  "lowers sub options \<longleftrightarrow>
     (\<forall>w \<in> set options. \<forall>r. w \<le> r \<longrightarrow> 0 \<le> sub r w \<and> sub r w \<le> r)"

text \<open>
  The state of the outer loop: the options before the current one (\<open>pre\<close>) no longer
  fit, the others (\<open>suf\<close>) are still to come, in descending order.
\<close>

definition greedy_inv :: "real list \<Rightarrow> real list \<Rightarrow> real list \<Rightarrow> real \<Rightarrow> bool" where
  "greedy_inv options pre suf r \<longleftrightarrow>
     set options = set (pre @ suf) \<and> sorted (rev (pre @ suf)) \<and>
     (\<forall>x \<in> set pre. r < x) \<and> 0 \<le> r"

section \<open>Results about Mold\<close>

lemma check_compatibility_with_zero:
  "heating_temperature a = 0 \<or> heating_time a = 0 \<Longrightarrow>
     check_compatibility_with a b tt dt = Inl ZeroDivisionError"
  by (auto simp: check_compatibility_with_def py_div_def)

lemma check_compatibility_with_nonzero:
  "heating_temperature a \<noteq> 0 \<Longrightarrow> heating_time a \<noteq> 0 \<Longrightarrow>
     check_compatibility_with a b tt dt =
       Inr (\<bar>heating_temperature a - heating_temperature b\<bar> / heating_temperature a \<le> tt \<and>
            \<bar>heating_time a - heating_time b\<bar> / heating_time a \<le> dt)"
  by (simp add: check_compatibility_with_def py_div_def)

text \<open>
  Claim C5. \<open>check_compatibility_with\<close> divides by the heating temperature and by the
  heating time of \<open>self\<close>: it raises ZeroDivisionError exactly when one of the two is
  zero, and when both are nonzero it returns a boolean, the fault being unreachable.
  The same holds for the Mold of src/molds_class_complete.py, an extension of the record.
\<close>

theorem check_compatibility_with_fault:
  fixes a :: "'a Mold_scheme" and b :: "'b Mold_scheme"
  shows "(check_compatibility_with a b tt dt = Inl ZeroDivisionError
            \<longleftrightarrow> heating_temperature a = 0 \<or> heating_time a = 0) \<and>
         ((\<exists>e. check_compatibility_with a b tt dt = Inl e)
            \<longleftrightarrow> heating_temperature a = 0 \<or> heating_time a = 0) \<and>
         (heating_temperature a \<noteq> 0 \<and> heating_time a \<noteq> 0 \<longrightarrow>
            (\<exists>r. check_compatibility_with a b tt dt = Inr r))"
proof (cases "heating_temperature a = 0 \<or> heating_time a = 0")
  case True
  then show ?thesis
    using check_compatibility_with_zero [OF True, of b tt dt] by auto
next
  case False
  then show ?thesis
    using check_compatibility_with_nonzero [of a b tt dt] by auto
qed

theorem check_compatibility_with_fault_witness:
  "heating_temperature mold1 \<noteq> 0 \<and> heating_time mold1 \<noteq> 0 \<and>
   (\<exists>r. check_compatibility_with mold1 mold4 (2 / 100) (2 / 100) = Inr r) \<and>
   heating_temperature mold3 = 0 \<and>
   check_compatibility_with mold3 mold1 (2 / 100) (2 / 100) = Inl ZeroDivisionError"
  using check_compatibility_with_fault [of mold1 mold4 "2 / 100" "2 / 100"]
    check_compatibility_with_fault [of mold3 mold1 "2 / 100" "2 / 100"]
  by (simp add: mold1_def mold3_def)

text \<open>
  Claim C7. Compatibility is monotonic in the tolerance: when neither the heating
  temperature nor the heating time of \<open>a\<close> is zero and \<open>a\<close> accepts \<open>b\<close> at the
  tolerance \<open>t1\<close> (for both parameters), it accepts \<open>b\<close> at every \<open>t2 \<ge> t1\<close>.
\<close>

theorem compatibility_tolerance_monotonic:
  fixes a :: "'a Mold_scheme" and b :: "'b Mold_scheme"
  assumes "heating_temperature a \<noteq> 0" and "heating_time a \<noteq> 0"
    and "check_compatibility_with a b t1 t1 = Inr True" and "t1 \<le> t2"
  shows "check_compatibility_with a b t2 t2 = Inr True"
proof -
  let ?dtemp = "\<bar>heating_temperature a - heating_temperature b\<bar> / heating_temperature a"
  let ?dtime = "\<bar>heating_time a - heating_time b\<bar> / heating_time a"
  from assms(1-3) have "?dtemp \<le> t1" and "?dtime \<le> t1"
    by (simp_all add: check_compatibility_with_nonzero)
  with \<open>t1 \<le> t2\<close> have "?dtemp \<le> t2 \<and> ?dtime \<le> t2"
    by linarith
  with assms(1,2) show ?thesis
    by (simp add: check_compatibility_with_nonzero)
qed

theorem compatibility_tolerance_monotonic_witness:
  "check_compatibility_with mold1 mold2 (1 / 10) (1 / 10) = Inr True \<and>
   check_compatibility_with mold1 mold2 (2 / 10) (2 / 10) = Inr True"
proof -
  have nz: "heating_temperature mold1 \<noteq> 0" "heating_time mold1 \<noteq> 0"
    by (simp_all add: mold1_def)
  have c: "check_compatibility_with mold1 mold2 (1 / 10) (1 / 10) = Inr True"
    by (simp add: check_compatibility_with_def py_div_def mold1_def mold2_def)
  have le: "(1 / 10 :: real) \<le> 2 / 10"
    by simp
  from compatibility_tolerance_monotonic [OF nz c le] c show ?thesis
    by simp
qed

section \<open>Results about Arm\<close>

lemma temperature_loop_True:
  "temperature_loop first molds = Inr True \<longleftrightarrow>
     (\<forall>m \<in> set molds. compatible_default first m = Inr True)"
  by (induction molds) (auto split: sum.splits)

lemma duration_loop_True:
  "duration_loop molds is = Inr True \<longleftrightarrow>
     (\<forall>i \<in> set is. compatible_default (molds ! i) (molds ! (i + 1)) = Inr True)"
  by (induction "is") (auto split: sum.splits)

lemma torque_balance_loop_sums:
  "torque_balance_loop (l, r) ws =
     (l + sum_list (map BalancingWeight.weight (filter (\<lambda>w. position w = ''left'') ws)),
      r + sum_list (map BalancingWeight.weight (filter (\<lambda>w. position w \<noteq> ''left'') ws)))"
  by (induction ws arbitrary: l r) simp_all

text \<open>
  Claim C8. With no mold or one mold mounted, both compatibility checks of an arm
  return True. With two or more, \<open>check_temperature_compatibility\<close> returns True
  exactly when the first mold accepts every later mold at the default tolerances, and
  \<open>check_duration_compatibility\<close> exactly when every mold accepts its successor.
  The two checks differ: there are arms on which the first holds and the second fails,
  and arms on which the second holds and the first fails.
\<close>

theorem arm_compatibility_checks:
  "(length (current_molds a) \<le> 1 \<longrightarrow>
      check_temperature_compatibility a = Inr True \<and>
      check_duration_compatibility a = Inr True) \<and>
   (2 \<le> length (current_molds a) \<longrightarrow>
      (check_temperature_compatibility a = Inr True \<longleftrightarrow>
         (\<forall>m \<in> set (drop 1 (current_molds a)).
            compatible_default (current_molds a ! 0) m = Inr True)) \<and>
      (check_duration_compatibility a = Inr True \<longleftrightarrow>
         (\<forall>i < length (current_molds a) - 1.
            compatible_default (current_molds a ! i) (current_molds a ! (i + 1)) = Inr True))) \<and>
   (\<exists>b. check_temperature_compatibility b = Inr True \<and>
        check_duration_compatibility b = Inr False) \<and>
   (\<exists>b. check_temperature_compatibility b = Inr False \<and>
        check_duration_compatibility b = Inr True)"
proof (intro conjI impI)
  assume "length (current_molds a) \<le> 1"
  then show "check_temperature_compatibility a = Inr True"
    and "check_duration_compatibility a = Inr True"
    by (simp_all add: check_temperature_compatibility_def check_duration_compatibility_def)
next
  assume "2 \<le> length (current_molds a)"
  then show "check_temperature_compatibility a = Inr True \<longleftrightarrow>
         (\<forall>m \<in> set (drop 1 (current_molds a)).
            compatible_default (current_molds a ! 0) m = Inr True)"
    by (simp add: check_temperature_compatibility_def temperature_loop_True)
next
  assume "2 \<le> length (current_molds a)"
  then show "check_duration_compatibility a = Inr True \<longleftrightarrow>
         (\<forall>i < length (current_molds a) - 1.
            compatible_default (current_molds a ! i) (current_molds a ! (i + 1)) = Inr True)"
    by (auto simp add: check_duration_compatibility_def duration_loop_True)
next
  have "check_temperature_compatibility (arm_with [mold_at 100, mold_at 102, mold_at 98]) = Inr True \<and>
        check_duration_compatibility (arm_with [mold_at 100, mold_at 102, mold_at 98]) = Inr False"
    by (simp add: check_temperature_compatibility_def check_duration_compatibility_def
        arm_with_def new_Arm_def mold_at_def mold1_def compatible_default_def
        default_tolerance_def check_compatibility_with_def py_div_def upt_rec)
  then show "\<exists>b. check_temperature_compatibility b = Inr True \<and>
        check_duration_compatibility b = Inr False"
    by blast
next
  have "check_temperature_compatibility (arm_with [mold_at 100, mold_at 102, mold_at 104]) = Inr False \<and>
        check_duration_compatibility (arm_with [mold_at 100, mold_at 102, mold_at 104]) = Inr True"
    by (simp add: check_temperature_compatibility_def check_duration_compatibility_def
        arm_with_def new_Arm_def mold_at_def mold1_def compatible_default_def
        default_tolerance_def check_compatibility_with_def py_div_def upt_rec)
  then show "\<exists>b. check_temperature_compatibility b = Inr False \<and>
        check_duration_compatibility b = Inr True"
    by blast
qed

theorem arm_compatibility_checks_witness:
  "length (current_molds (arm_with [mold1])) \<le> 1 \<and>
   check_temperature_compatibility (arm_with [mold1]) = Inr True \<and>
   check_duration_compatibility (arm_with [mold1]) = Inr True \<and>
   2 \<le> length (current_molds (arm_with [mold_at 100, mold_at 102, mold_at 98])) \<and>
   check_temperature_compatibility (arm_with [mold_at 100, mold_at 102, mold_at 98]) = Inr True \<and>
   check_duration_compatibility (arm_with [mold_at 100, mold_at 102, mold_at 98]) \<noteq> Inr True"
proof -
  have short: "length (current_molds (arm_with [mold1])) \<le> 1"
    by (simp add: arm_with_def)
  have long: "2 \<le> length (current_molds (arm_with [mold_at 100, mold_at 102, mold_at 98]))"
    by (simp add: arm_with_def)
  have anchor: "\<forall>m \<in> set (drop 1 (current_molds (arm_with [mold_at 100, mold_at 102, mold_at 98]))).
      compatible_default (current_molds (arm_with [mold_at 100, mold_at 102, mold_at 98]) ! 0) m = Inr True"
    by (simp add: arm_with_def mold_at_def mold1_def compatible_default_def
        default_tolerance_def check_compatibility_with_def py_div_def)
  have adjacent: "\<not> (\<forall>i < length (current_molds (arm_with [mold_at 100, mold_at 102, mold_at 98])) - 1.
      compatible_default (current_molds (arm_with [mold_at 100, mold_at 102, mold_at 98]) ! i)
        (current_molds (arm_with [mold_at 100, mold_at 102, mold_at 98]) ! (i + 1)) = Inr True)"
    by (auto simp add: arm_with_def mold_at_def mold1_def compatible_default_def
        default_tolerance_def check_compatibility_with_def py_div_def intro!: exI [of _ 1])
  from short long anchor adjacent
    arm_compatibility_checks [of "arm_with [mold1]"]
    arm_compatibility_checks [of "arm_with [mold_at 100, mold_at 102, mold_at 98]"]
  show ?thesis
    by blast
qed

text \<open>
  Claim C9. \<open>check_torque_balance\<close> adds the candidate weights to copies of the two
  side torques (a weight whose position is \<open>left\<close> to the left copy, any other to the
  right copy) and answers whether the difference of the copies is at most 0.1 in
  absolute value; the arm it leaves is the arm it was given, with the side torques,
  the molds and the spiders unchanged.
\<close>

theorem check_torque_balance_pure:
  "check_torque_balance a ws =
     (a, \<bar>(torque_right_side a +
            sum_list (map BalancingWeight.weight (filter (\<lambda>w. position w \<noteq> ''left'') ws))) -
           (torque_left_side a +
            sum_list (map BalancingWeight.weight (filter (\<lambda>w. position w = ''left'') ws)))\<bar>
          \<le> 1 / 10) \<and>
   torque_left_side (fst (check_torque_balance a ws)) = torque_left_side a \<and>
   torque_right_side (fst (check_torque_balance a ws)) = torque_right_side a \<and>
   current_molds (fst (check_torque_balance a ws)) = current_molds a \<and>
   current_spiders (fst (check_torque_balance a ws)) = current_spiders a"
  by (simp add: check_torque_balance_def torque_balance_loop_sums)

theorem check_torque_balance_pure_witness:
  "check_torque_balance (new_Arm ''arm'' 4 100 100 3 1) [weight_at ''right'' 2, weight_at ''left'' 1] =
     (new_Arm ''arm'' 4 100 100 3 1, False) \<and>
   check_torque_balance (new_Arm ''arm'' 4 100 100 3 1) [weight_at ''right'' 2] =
     (new_Arm ''arm'' 4 100 100 3 1, True)"
  using check_torque_balance_pure [of "new_Arm ''arm'' 4 100 100 3 1"
      "[weight_at ''right'' 2, weight_at ''left'' 1]"]
    check_torque_balance_pure [of "new_Arm ''arm'' 4 100 100 3 1" "[weight_at ''right'' 2]"]
  by (simp add: new_Arm_def weight_at_def)

text \<open>
  Claim C10. For a position other than \<open>left\<close> and \<open>right\<close>,
  \<open>add_balancing_weight\<close> changes nothing in the arm, whereas
  \<open>check_torque_balance\<close> credits a weight whose position is not \<open>left\<close> to the
  right side.
\<close>

theorem add_balancing_weight_unknown_position:
  "(pos \<noteq> ''left'' \<and> pos \<noteq> ''right'' \<longrightarrow> add_balancing_weight a w pos = a) \<and>
   (position bw \<noteq> ''left'' \<longrightarrow>
      check_torque_balance a [bw] =
        (a, \<bar>(torque_right_side a + BalancingWeight.weight bw) - torque_left_side a\<bar> \<le> 1 / 10))"
  by (simp add: add_balancing_weight_def check_torque_balance_def)

theorem add_balancing_weight_unknown_position_witness:
  "''top'' \<noteq> ''left'' \<and> ''top'' \<noteq> ''right'' \<and>
   add_balancing_weight (new_Arm ''arm'' 4 100 100 0 0) 5 ''top'' = new_Arm ''arm'' 4 100 100 0 0 \<and>
   position (weight_at ''top'' 5) \<noteq> ''left'' \<and>
   check_torque_balance (new_Arm ''arm'' 4 100 100 0 0) [weight_at ''top'' 5] =
     (new_Arm ''arm'' 4 100 100 0 0, False) \<and>
   check_torque_balance (new_Arm ''arm'' 4 100 100 0 0) [] =
     (new_Arm ''arm'' 4 100 100 0 0, True)"
  using add_balancing_weight_unknown_position [of "''top''" "new_Arm ''arm'' 4 100 100 0 0" 5
      "weight_at ''top'' 5"]
  by (simp add: new_Arm_def weight_at_def check_torque_balance_def)

section \<open>Results about RTXMachine\<close>

lemma validate_loop_passes:
  "list_all arm_passes pre \<Longrightarrow> validate_loop (pre @ rest) = validate_loop rest"
  by (induction pre) (simp_all add: arm_passes_def)

lemma validate_loop_True:
  "validate_loop arms = Inr (True, msg) \<longleftrightarrow>
     list_all arm_passes arms \<and> msg = ''All constraints satisfied''"
  by (induction arms) (auto simp add: arm_passes_def split: sum.splits)

lemma validate_loop_first_failure:
  assumes "list_all arm_passes pre"
  shows "validate_loop (pre @ arm # post) =
     (if \<not> check_spatial_constraint arm
      then Inr (False, ''Spatial constraint violated on arm '' @ arm_id arm)
      else if \<not> check_balance_constraint arm balance_tolerance
      then Inr (False, ''Balance constraint violated on arm '' @ arm_id arm)
      else case check_temperature_compatibility arm of
        Inl e \<Rightarrow> Inl e
      | Inr temperature_ok \<Rightarrow>
          if \<not> temperature_ok
          then Inr (False, ''Temperature compatibility failed on arm '' @ arm_id arm)
          else case check_duration_compatibility arm of
            Inl e \<Rightarrow> Inl e
          | Inr duration_ok \<Rightarrow>
              if \<not> duration_ok
              then Inr (False, ''Duration compatibility failed on arm '' @ arm_id arm)
              else validate_loop post)"
  using validate_loop_passes [OF assms, of "arm # post"] by simp

lemma good_arm_passes: "arm_passes good_arm"
  by (simp add: arm_passes_def good_arm_def new_Arm_def check_spatial_constraint_def
      check_balance_constraint_def calculate_balance_torque_def balance_tolerance_def
      check_temperature_compatibility_def check_duration_compatibility_def)

lemma unbalanced_arm:
  "check_spatial_constraint (arm_with [mold1]) \<and>
   \<not> check_balance_constraint (arm_with [mold1]) balance_tolerance"
  by (simp add: arm_with_def new_Arm_def mold1_def check_spatial_constraint_def
      check_balance_constraint_def calculate_balance_torque_def calculate_torque_def
      balance_tolerance_def)

lemma validate_good_machine:
  "validate_arrangement (machine_with [good_arm] d) = Inr (True, ''All constraints satisfied'')"
  using good_arm_passes
  by (simp add: arm_passes_def validate_arrangement_def machine_with_def new_RTXMachine_def)

lemma validate_unbalanced_machine:
  "validate_arrangement (machine_with [good_arm, arm_with [mold1]] d) =
     Inr (False, ''Balance constraint violated on arm arm'')"
proof -
  have "validate_loop ([good_arm] @ arm_with [mold1] # []) =
      Inr (False, ''Balance constraint violated on arm '' @ arm_id (arm_with [mold1]))"
    using unbalanced_arm good_arm_passes
    by (subst validate_loop_first_failure) simp_all
  then show ?thesis
    by (simp add: validate_arrangement_def machine_with_def new_RTXMachine_def
        arm_with_def new_Arm_def)
qed

text \<open>
  Claim C2. \<open>validate_arrangement\<close> visits the arms in list order and checks on each
  the spatial constraint, the balance, the temperature compatibility and the duration
  compatibility, in this order: when every arm before \<open>arm\<close> passes the four checks,
  the first check that \<open>arm\<close> fails decides the result, False with the message of that
  check and the arm's id. The result is True, with the message
  \<open>All constraints satisfied\<close>, exactly when every arm passes the four checks.
\<close>

theorem validate_arrangement_first_failure:
  "(validate_arrangement m = Inr (True, ''All constraints satisfied'')
      \<longleftrightarrow> (\<forall>arm \<in> set (arms_list m). arm_passes arm)) \<and>
   ((\<exists>msg. validate_arrangement m = Inr (True, msg))
      \<longleftrightarrow> (\<forall>arm \<in> set (arms_list m). arm_passes arm)) \<and>
   (arms_list m = pre @ arm # post \<and> (\<forall>a \<in> set pre. arm_passes a) \<longrightarrow>
      (\<not> check_spatial_constraint arm \<longrightarrow>
         validate_arrangement m =
           Inr (False, ''Spatial constraint violated on arm '' @ arm_id arm)) \<and>
      (check_spatial_constraint arm \<and> \<not> check_balance_constraint arm balance_tolerance \<longrightarrow>
         validate_arrangement m =
           Inr (False, ''Balance constraint violated on arm '' @ arm_id arm)) \<and>
      (check_spatial_constraint arm \<and> check_balance_constraint arm balance_tolerance \<and>
       check_temperature_compatibility arm = Inr False \<longrightarrow>
         validate_arrangement m =
           Inr (False, ''Temperature compatibility failed on arm '' @ arm_id arm)) \<and>
      (check_spatial_constraint arm \<and> check_balance_constraint arm balance_tolerance \<and>
       check_temperature_compatibility arm = Inr True \<and>
       check_duration_compatibility arm = Inr False \<longrightarrow>
         validate_arrangement m =
           Inr (False, ''Duration compatibility failed on arm '' @ arm_id arm)))"
proof (intro conjI impI)
  show "validate_arrangement m = Inr (True, ''All constraints satisfied'')
      \<longleftrightarrow> (\<forall>arm \<in> set (arms_list m). arm_passes arm)"
    by (simp add: validate_arrangement_def validate_loop_True list_all_iff)
  show "(\<exists>msg. validate_arrangement m = Inr (True, msg))
      \<longleftrightarrow> (\<forall>arm \<in> set (arms_list m). arm_passes arm)"
    by (simp add: validate_arrangement_def validate_loop_True list_all_iff)
next
  assume "arms_list m = pre @ arm # post \<and> (\<forall>a \<in> set pre. arm_passes a)"
  then have *: "validate_arrangement m = validate_loop (pre @ arm # post)"
    and pre: "list_all arm_passes pre"
    by (simp_all add: validate_arrangement_def list_all_iff)
  note ff = validate_loop_first_failure [OF pre, of arm post]
  {
    assume "\<not> check_spatial_constraint arm"
    then show "validate_arrangement m =
        Inr (False, ''Spatial constraint violated on arm '' @ arm_id arm)"
      unfolding * ff by simp
  next
    assume "check_spatial_constraint arm \<and> \<not> check_balance_constraint arm balance_tolerance"
    then show "validate_arrangement m =
        Inr (False, ''Balance constraint violated on arm '' @ arm_id arm)"
      unfolding * ff by simp
  next
    assume "check_spatial_constraint arm \<and> check_balance_constraint arm balance_tolerance \<and>
       check_temperature_compatibility arm = Inr False"
    then show "validate_arrangement m =
        Inr (False, ''Temperature compatibility failed on arm '' @ arm_id arm)"
      unfolding * ff by simp
  next
    assume "check_spatial_constraint arm \<and> check_balance_constraint arm balance_tolerance \<and>
       check_temperature_compatibility arm = Inr True \<and>
       check_duration_compatibility arm = Inr False"
    then show "validate_arrangement m =
        Inr (False, ''Duration compatibility failed on arm '' @ arm_id arm)"
      unfolding * ff by simp
  }
qed

text \<open>
  Claim C1. \<open>execute_cycle\<close> runs \<open>validate_arrangement\<close> first. When the validation
  fails, it returns False with the validation's message and the machine is unchanged,
  whatever the quota. When the validation passes and \<open>daily_cycles_completed\<close> has
  reached \<open>max_daily_cycles\<close>, it returns False with \<open>Daily cycle limit reached\<close> and
  the machine, its \<open>current_cycle\<close> too, is unchanged. Otherwise it adds one to
  \<open>current_cycle\<close> and to \<open>daily_cycles_completed\<close> and returns True with the message
  that names the new \<open>current_cycle\<close>. An exception of the validation is passed on.
\<close>

theorem execute_cycle_cases:
  "(validate_arrangement m = Inr (False, msg) \<longrightarrow> execute_cycle m = Inr (m, False, msg)) \<and>
   (validate_arrangement m = Inr (True, msg) \<and>
    max_daily_cycles m \<le> daily_cycles_completed m \<longrightarrow>
      execute_cycle m = Inr (m, False, ''Daily cycle limit reached'')) \<and>
   (validate_arrangement m = Inr (True, msg) \<and>
    daily_cycles_completed m < max_daily_cycles m \<longrightarrow>
      execute_cycle m =
        Inr (m\<lparr>current_cycle := current_cycle m + 1,
                daily_cycles_completed := daily_cycles_completed m + 1\<rparr>,
             True,
             ''Cycle '' @ str_int (current_cycle m + 1) @ '' completed successfully'')) \<and>
   (validate_arrangement m = Inl e \<longrightarrow> execute_cycle m = Inl e)"
  by (simp add: execute_cycle_def)

theorem validate_arrangement_first_failure_witness:
  "validate_arrangement (machine_with [good_arm] 0) = Inr (True, ''All constraints satisfied'') \<and>
   arm_passes good_arm \<and>
   check_spatial_constraint (arm_with [mold1]) \<and>
   \<not> check_balance_constraint (arm_with [mold1]) balance_tolerance \<and>
   validate_arrangement (machine_with [good_arm, arm_with [mold1]] 0) =
     Inr (False, ''Balance constraint violated on arm arm'')"
proof -
  have all: "\<forall>arm \<in> set (arms_list (machine_with [good_arm] 0)). arm_passes arm"
    using good_arm_passes by (simp add: machine_with_def)
  have split: "arms_list (machine_with [good_arm, arm_with [mold1]] 0) =
      [good_arm] @ arm_with [mold1] # [] \<and> (\<forall>a \<in> set [good_arm]. arm_passes a)"
    using good_arm_passes by (simp add: machine_with_def)
  have id: "arm_id (arm_with [mold1]) = ''arm''"
    by (simp add: arm_with_def new_Arm_def)
  from validate_arrangement_first_failure [of "machine_with [good_arm] 0"] all
  have "validate_arrangement (machine_with [good_arm] 0) =
      Inr (True, ''All constraints satisfied'')"
    by blast
  moreover
  from validate_arrangement_first_failure [of "machine_with [good_arm, arm_with [mold1]] 0"
      "[good_arm]" "arm_with [mold1]" "[]"] split unbalanced_arm
  have "validate_arrangement (machine_with [good_arm, arm_with [mold1]] 0) =
      Inr (False, ''Balance constraint violated on arm '' @ arm_id (arm_with [mold1]))"
    by blast
  ultimately show ?thesis
    using good_arm_passes unbalanced_arm by (simp add: id)
qed

theorem execute_cycle_cases_witness:
  "execute_cycle (machine_with [good_arm] 0) =
     Inr ((machine_with [good_arm] 0)\<lparr>current_cycle := 1, daily_cycles_completed := 1\<rparr>,
          True, ''Cycle 1 completed successfully'') \<and>
   execute_cycle (machine_with [good_arm] 7) =
     Inr (machine_with [good_arm] 7, False, ''Daily cycle limit reached'') \<and>
   execute_cycle (machine_with [good_arm, arm_with [mold1]] 7) =
     Inr (machine_with [good_arm, arm_with [mold1]] 7, False,
          ''Balance constraint violated on arm arm'')"
proof -
  have one: "str_int 1 = ''1''"
    by (simp add: str_int_def str_nat.simps digit_char_def)
  have fields: "daily_cycles_completed (machine_with [good_arm] 0) = 0"
    "current_cycle (machine_with [good_arm] 0) = 0"
    "max_daily_cycles (machine_with [good_arm] 0) = 7"
    "daily_cycles_completed (machine_with [good_arm] 7) = 7"
    "max_daily_cycles (machine_with [good_arm] 7) = 7"
    by (simp_all add: machine_with_def new_RTXMachine_def)
  from execute_cycle_cases [of "machine_with [good_arm] 0" "''All constraints satisfied''"]
    execute_cycle_cases [of "machine_with [good_arm] 7" "''All constraints satisfied''"]
    execute_cycle_cases [of "machine_with [good_arm, arm_with [mold1]] 7"
      "''Balance constraint violated on arm arm''"]
    validate_good_machine [of 0] validate_good_machine [of 7] validate_unbalanced_machine [of 7]
  show ?thesis
    by (simp add: fields one)
qed

text \<open>
  Claim C6, as the code has it. \<open>change_arrangement\<close> sets \<open>max_daily_cycles\<close> to
  \<open>max 0 (max_daily_cycles - k)\<close> and changes nothing else; the new quota is never
  negative. When \<open>k\<close> is not negative and the quota was not negative (as it is from
  the constructor on), the quota does not increase, and it is lowered by exactly \<open>k\<close>
  when \<open>k\<close> does not exceed it.
\<close>

theorem change_arrangement_quota:
  "change_arrangement m k =
     (m\<lparr>max_daily_cycles := max 0 (max_daily_cycles m - k)\<rparr>,
      ''Arrangement changed, '' @ str_int k @ '' cycles lost to setup'') \<and>
   0 \<le> max_daily_cycles (fst (change_arrangement m k)) \<and>
   (0 \<le> k \<and> 0 \<le> max_daily_cycles m \<longrightarrow>
      max_daily_cycles (fst (change_arrangement m k)) \<le> max_daily_cycles m) \<and>
   (0 \<le> k \<and> k \<le> max_daily_cycles m \<longrightarrow>
      max_daily_cycles (fst (change_arrangement m k)) = max_daily_cycles m - k) \<and>
   (max_daily_cycles m \<le> k \<longrightarrow> max_daily_cycles (fst (change_arrangement m k)) = 0)"
  by (simp add: change_arrangement_def)

theorem change_arrangement_quota_witness:
  "max_daily_cycles (new_RTXMachine ''RTX'' 1) = 7 \<and>
   max_daily_cycles (fst (change_arrangement (new_RTXMachine ''RTX'' 1) 3)) = 4 \<and>
   max_daily_cycles (fst (change_arrangement (new_RTXMachine ''RTX'' 1) 9)) = 0"
  using change_arrangement_quota [of "new_RTXMachine ''RTX'' 1" 3]
    change_arrangement_quota [of "new_RTXMachine ''RTX'' 1" 9]
  by (simp add: new_RTXMachine_def)

text \<open>
  As stated, claim C6 fails: a negative \<open>setup_time_loss\<close> raises the quota of a new
  machine from 7 to 10.
\<close>

theorem change_arrangement_increases_counterexample:
  "\<not> max_daily_cycles (fst (change_arrangement (new_RTXMachine ''RTX'' 1) (- 3)))
       \<le> max_daily_cycles (new_RTXMachine ''RTX'' 1)"
  by (simp add: change_arrangement_def new_RTXMachine_def)

section \<open>Results about Order\<close>

lemma map_of_dict_set: "map_of (dict_set d k v) = (map_of d)(k \<mapsto> v)"
  by (induction d k v rule: dict_set.induct) auto

lemma set_dict_set: "set (dict_set d k v) \<subseteq> insert (k, v) (set d)"
  by (induction d k v rule: dict_set.induct) auto

lemma dict_set_twice: "dict_set (dict_set d k v) k v' = dict_set d k v'"
  by (induction d k v rule: dict_set.induct) auto

lemma list_all_dict_set:
  "list_all P d \<Longrightarrow> P (k, v) \<Longrightarrow> list_all P (dict_set d k v)"
  using set_dict_set [of d k v] by (auto simp add: list_all_iff)

lemma update_progress_result:
  "update_progress self mid q =
     Inr (self\<lparr>completion_status :=
       (let status = (if map_of (completion_status self) mid = None
                      then dict_set (completion_status self) mid 0
                      else completion_status self);
            new_total = (case map_of (completion_status self) mid of None \<Rightarrow> 0 | Some v \<Rightarrow> v) + q;
            status = dict_set status mid new_total
        in case map_of (mold_requirements self) mid of
             None \<Rightarrow> status
           | Some required \<Rightarrow> if new_total \<ge> required then dict_set status mid required else status)\<rparr>)"
  by (auto simp add: update_progress_def dict_get_def map_of_dict_set Let_def
      split: option.splits)

lemma update_progress_tracked:
  "update_progress self mid q = Inr self' \<Longrightarrow>
     map_of (completion_status self') mid = Some (tracked_after self mid q) \<and>
     (\<forall>other. other \<noteq> mid \<longrightarrow>
        map_of (completion_status self') other = map_of (completion_status self) other) \<and>
     mold_requirements self' = mold_requirements self"
  unfolding update_progress_result
  by (auto simp add: tracked_after_def map_of_dict_set Let_def split: option.splits)

lemma update_progress_clamped:
  assumes "update_progress self mid q = Inr self'" and "clamped self"
  shows "clamped self'"
  using assms unfolding update_progress_result clamped_def
  by (auto simp add: Let_def within_requirement_def dict_set_twice
      intro!: list_all_dict_set split: option.splits)

lemma update_progress_within:
  "map_of (mold_requirements self) mid = Some required \<Longrightarrow>
     tracked_after self mid q \<le> required"
  by (simp add: tracked_after_def Let_def)

lemma clamped_lookup:
  assumes "clamped self" and "map_of (completion_status self) k = Some v"
    and "map_of (mold_requirements self) k = Some required"
  shows "v \<le> required"
proof -
  from assms(2) have "(k, v) \<in> set (completion_status self)"
    by (rule map_of_SomeD)
  with assms(1) have "within_requirement (mold_requirements self) (k, v)"
    by (simp add: clamped_def list_all_iff)
  with assms(3) show ?thesis
    by (simp add: within_requirement_def)
qed

lemma update_all_clamped:
  "clamped self \<Longrightarrow>
     \<exists>self'. update_all self calls = Inr self' \<and> clamped self' \<and>
       mold_requirements self' = mold_requirements self"
proof (induction calls arbitrary: self)
  case Nil
  then show ?case by simp
next
  case (Cons call calls)
  obtain mid q where call: "call = (mid, q)"
    by (cases call)
  obtain next_self where step: "update_progress self mid q = Inr next_self"
    by (simp add: update_progress_result)
  with Cons.prems have "clamped next_self"
    by (rule update_progress_clamped [rotated])
  from Cons.IH [OF this] obtain self' where
    "update_all next_self calls = Inr self'" "clamped self'"
    "mold_requirements self' = mold_requirements next_self"
    by blast
  moreover from step have "mold_requirements next_self = mold_requirements self"
    by (simp add: update_progress_tracked)
  ultimately show ?case
    using call step by simp
qed

text \<open>
  Claim C3. \<open>update_progress\<close> never raises. It adds the quantity to the tracked
  total of the mold (0 when the mold was not tracked yet) and, when the mold is
  required, keeps the requirement instead of a larger total; the other tracked totals
  and the requirements stay as they are. So the tracked total of the mold does not
  exceed its requirement, the invariant \<open>clamped\<close> (no tracked total of a required mold
  exceeds its requirement) holds of a new order and is kept by every sequence of
  calls. For the requirement \<open>{X: 5}\<close>, two calls with \<open>X\<close> and 3 leave the tracked
  total 5, and \<open>check_completion\<close> returns True.
\<close>

theorem update_progress_clamps:
  "(\<exists>self'. update_progress self mid q = Inr self') \<and>
   (update_progress self mid q = Inr self' \<longrightarrow>
      map_of (completion_status self') mid = Some (tracked_after self mid q) \<and>
      (\<forall>other. other \<noteq> mid \<longrightarrow>
         map_of (completion_status self') other = map_of (completion_status self) other) \<and>
      mold_requirements self' = mold_requirements self \<and>
      (\<forall>required. map_of (mold_requirements self) mid = Some required \<longrightarrow>
         tracked_after self mid q \<le> required) \<and>
      (clamped self \<longrightarrow> clamped self')) \<and>
   clamped (new_Order oid requirements dl) \<and>
   (clamped self \<longrightarrow>
      (\<exists>self'. update_all self calls = Inr self' \<and> clamped self' \<and>
         mold_requirements self' = mold_requirements self \<and>
         (\<forall>k v required. map_of (completion_status self') k = Some v \<and>
            map_of (mold_requirements self') k = Some required \<longrightarrow> v \<le> required))) \<and>
   (\<exists>self'. update_all (new_Order oid [(''X'', 5)] dl) [(''X'', 3), (''X'', 3)] = Inr self' \<and>
      map_of (completion_status self') ''X'' = Some 5 \<and>
      snd (check_completion self') = True)"
proof (intro conjI impI allI)
  show "\<exists>self'. update_progress self mid q = Inr self'"
    by (simp add: update_progress_result)
next
  assume step: "update_progress self mid q = Inr self'"
  then show "map_of (completion_status self') mid = Some (tracked_after self mid q)"
    by (simp add: update_progress_tracked)
  from step show "mold_requirements self' = mold_requirements self"
    by (simp add: update_progress_tracked)
  {
    fix other :: string
    assume "other \<noteq> mid"
    with step show "map_of (completion_status self') other = map_of (completion_status self) other"
      by (simp add: update_progress_tracked)
  next
    fix required
    assume "map_of (mold_requirements self) mid = Some required"
    then show "tracked_after self mid q \<le> required"
      by (rule update_progress_within)
  next
    assume "clamped self"
    with step show "clamped self'"
      by (rule update_progress_clamped)
  }
next
  show "clamped (new_Order oid requirements dl)"
    by (simp add: clamped_def new_Order_def)
next
  assume "clamped self"
  from update_all_clamped [OF this, of calls] obtain self' where
    run: "update_all self calls = Inr self'" and inv: "clamped self'"
    and req: "mold_requirements self' = mold_requirements self"
    by blast
  from inv have "\<forall>k v required. map_of (completion_status self') k = Some v \<and>
      map_of (mold_requirements self') k = Some required \<longrightarrow> v \<le> required"
    by (blast intro: clamped_lookup)
  with run inv req
  show "\<exists>self'. update_all self calls = Inr self' \<and> clamped self' \<and>
         mold_requirements self' = mold_requirements self \<and>
         (\<forall>k v required. map_of (completion_status self') k = Some v \<and>
            map_of (mold_requirements self') k = Some required \<longrightarrow> v \<le> required)"
    by blast
next
  show "\<exists>self'. update_all (new_Order oid [(''X'', 5)] dl) [(''X'', 3), (''X'', 3)] = Inr self' \<and>
      map_of (completion_status self') ''X'' = Some 5 \<and>
      snd (check_completion self') = True"
    by (simp add: update_progress_def dict_get_def new_Order_def check_completion_def)
qed

theorem update_progress_clamps_witness:
  "update_progress (new_Order ''O1'' [(''X'', 5)] ''Friday'') ''X'' 3 =
     Inr ((new_Order ''O1'' [(''X'', 5)] ''Friday'')\<lparr>completion_status := [(''X'', 3)]\<rparr>) \<and>
   map_of (completion_status
     ((new_Order ''O1'' [(''X'', 5)] ''Friday'')\<lparr>completion_status := [(''X'', 3)]\<rparr>)) ''X'' = Some 3 \<and>
   tracked_after ((new_Order ''O1'' [(''X'', 5)] ''Friday'')\<lparr>completion_status := [(''X'', 3)]\<rparr>)
     ''X'' 3 = 5 \<and>
   clamped ((new_Order ''O1'' [(''X'', 5)] ''Friday'')\<lparr>completion_status := [(''X'', 3)]\<rparr>) \<and>
   update_progress ((new_Order ''O1'' [(''X'', 5)] ''Friday'')\<lparr>completion_status := [(''X'', 3)]\<rparr>)
     ''X'' 3 =
     Inr ((new_Order ''O1'' [(''X'', 5)] ''Friday'')\<lparr>completion_status := [(''X'', 5)]\<rparr>) \<and>
   clamped ((new_Order ''O1'' [(''X'', 5)] ''Friday'')\<lparr>completion_status := [(''X'', 5)]\<rparr>)"
proof -
  let ?o = "new_Order ''O1'' [(''X'', 5)] ''Friday''"
  let ?o1 = "?o\<lparr>completion_status := [(''X'', 3)]\<rparr>"
  let ?o2 = "?o\<lparr>completion_status := [(''X'', 5)]\<rparr>"
  have first: "update_progress ?o ''X'' 3 = Inr ?o1"
    by (simp add: update_progress_def dict_get_def new_Order_def)
  have second: "update_progress ?o1 ''X'' 3 = Inr ?o2"
    by (simp add: update_progress_def dict_get_def new_Order_def)
  have start: "clamped ?o"
    using update_progress_clamps [of ?o "''X''" 3 ?o1 "''O1''" "[(''X'', 5)]" "''Friday''" "[]"]
    by blast
  have c1: "clamped ?o1"
    using update_progress_clamps [of ?o "''X''" 3 ?o1 "''O1''" "[(''X'', 5)]" "''Friday''" "[]"]
      first start by blast
  have c2: "clamped ?o2"
    using update_progress_clamps [of ?o1 "''X''" 3 ?o2 "''O1''" "[(''X'', 5)]" "''Friday''" "[]"]
      second c1 by blast
  have t: "tracked_after ?o1 ''X'' 3 = 5"
    by (simp add: tracked_after_def new_Order_def)
  have m: "map_of (completion_status ?o1) ''X'' = Some 3"
    by simp
  from first second c1 c2 t m show ?thesis
    by blast
qed

section \<open>Results about BalancingWeight\<close>

lemma subtract_while_counts_up:
  assumes "subtract_while sub w r n = Some y"
  shows "n \<le> snd y"
proof (rule subtract_while.raw_induct [where P = "\<lambda>sub w r n y. n \<le> snd y", OF _ assms])
  fix f :: "(real \<Rightarrow> real \<Rightarrow> real) \<Rightarrow> real \<Rightarrow> real \<Rightarrow> int \<Rightarrow> (real \<times> int) option"
    and sub w r n y
  assume IH: "\<And>sub w r n y. f sub w r n = Some y \<Longrightarrow> n \<le> snd y"
    and eq: "(if w \<le> r then f sub w (sub r w) (n + 1) else Some (r, n)) = Some y"
  show "n \<le> snd y"
  proof (cases "w \<le> r")
    case True
    with eq have "f sub w (sub r w) (n + 1) = Some y"
      by simp
    then have "n + 1 \<le> snd y"
      by (rule IH)
    then show ?thesis
      by simp
  next
    case False
    with eq show ?thesis
      by auto
  qed
qed

lemma subtract_while_absorbed:
  assumes "w \<le> r" and "sub r w = r"
  shows "subtract_while sub w r n = None"
proof (rule ccontr)
  assume "subtract_while sub w r n \<noteq> None"
  then obtain y where run: "subtract_while sub w r n = Some y"
    by blast
  have "\<not> (w \<le> r \<and> sub r w = r)"
  proof (rule subtract_while.raw_induct
      [where P = "\<lambda>sub w r n y. \<not> (w \<le> r \<and> sub r w = r)", OF _ run])
    fix f :: "(real \<Rightarrow> real \<Rightarrow> real) \<Rightarrow> real \<Rightarrow> real \<Rightarrow> int \<Rightarrow> (real \<times> int) option"
      and sub w r n y
    assume IH: "\<And>sub w r n y. f sub w r n = Some y \<Longrightarrow> \<not> (w \<le> r \<and> sub r w = r)"
      and eq: "(if w \<le> r then f sub w (sub r w) (n + 1) else Some (r, n)) = Some y"
    show "\<not> (w \<le> r \<and> sub r w = r)"
    proof
      assume stuck: "w \<le> r \<and> sub r w = r"
      with eq have "f sub w r (n + 1) = Some y"
        by simp
      then have "\<not> (w \<le> r \<and> sub r w = r)"
        by (rule IH)
      with stuck show False
        by simp
    qed
  qed
  with assms show False
    by simp
qed

lemma minimize_loop_counts_up:
  "minimize_loop sub ws r n = Some y \<Longrightarrow> n \<le> snd y"
proof (induction ws arbitrary: r n)
  case Nil
  then show ?case by auto
next
  case (Cons w ws)
  from Cons.prems obtain r1 n1 where
    inner: "subtract_while sub w r n = Some (r1, n1)"
    and rest: "minimize_loop sub ws r1 n1 = Some y"
    by (auto split: option.splits)
  from subtract_while_counts_up [OF inner] have "n \<le> n1"
    by simp
  also from rest have "n1 \<le> snd y"
    by (rule Cons.IH)
  finally show ?case .
qed

lemma exact_on_next:
  assumes "exact_on sub w r"
  shows "exact_on sub w (r - w)"
  unfolding exact_on_def
proof (intro allI impI)
  fix j :: nat
  assume "w \<le> r - w - real j * w"
  then have "w \<le> r - real (Suc j) * w"
    by (simp add: algebra_simps)
  with assms have "sub (r - real (Suc j) * w) w = r - real (Suc j) * w - w"
    unfolding exact_on_def by blast
  then show "sub (r - w - real j * w) w = r - w - real j * w - w"
    by (simp add: algebra_simps)
qed

lemma subtract_while_exact:
  assumes "0 < w"
  shows "0 \<le> r \<Longrightarrow> exact_on sub w r \<Longrightarrow>
     subtract_while sub w r n = Some (r - of_int \<lfloor>r / w\<rfloor> * w, n + \<lfloor>r / w\<rfloor>)"
proof (induction "nat \<lfloor>r / w\<rfloor>" arbitrary: r n)
  case 0
  with \<open>0 < w\<close> have "\<lfloor>r / w\<rfloor> = 0"
    by (simp add: floor_eq_iff)
  moreover from this \<open>0 < w\<close> have "r < w"
    by (simp add: floor_eq_iff)
  ultimately show ?case
    by (subst subtract_while.simps) simp
next
  case (Suc k)
  from Suc.hyps(2) have "1 \<le> \<lfloor>r / w\<rfloor>"
    by linarith
  with \<open>0 < w\<close> have fits: "w \<le> r"
    by (simp add: le_floor_iff pos_le_divide_eq)
  with Suc.prems(2) have step: "sub r w = r - w"
    unfolding exact_on_def by (auto dest: spec [of _ 0])
  have shift: "\<lfloor>(r - w) / w\<rfloor> = \<lfloor>r / w\<rfloor> - 1"
    using \<open>0 < w\<close> by (simp add: diff_divide_distrib)
  with Suc.hyps(2) have "k = nat \<lfloor>(r - w) / w\<rfloor>"
    by linarith
  moreover from fits have "0 \<le> r - w"
    by simp
  moreover from Suc.prems(2) have "exact_on sub w (r - w)"
    by (rule exact_on_next)
  ultimately have "subtract_while sub w (r - w) (n + 1) =
      Some (r - w - of_int \<lfloor>(r - w) / w\<rfloor> * w, n + 1 + \<lfloor>(r - w) / w\<rfloor>)"
    by (rule Suc.hyps(1))
  then have "subtract_while sub w (r - w) (n + 1) =
      Some (r - of_int \<lfloor>r / w\<rfloor> * w, n + \<lfloor>r / w\<rfloor>)"
    unfolding shift by (simp add: algebra_simps)
  with fits step show ?case
    by (subst subtract_while.simps) simp
qed

lemma minimize_weight_count_unit:
  assumes "weight_options self = [1]" and "exact_on sub 1 \<bar>t\<bar>"
  shows "minimize_weight_count sub self t = Some \<lfloor>\<bar>t\<bar>\<rfloor>"
  using subtract_while_exact [of 1 "\<bar>t\<bar>" sub 0] assms
  by (simp add: minimize_weight_count_def sorted_reverse_def)

lemma minimize_weight_count_nonnegative:
  assumes "minimize_weight_count sub self t = Some n"
  shows "0 \<le> n"
proof -
  from assms obtain y where
    "minimize_loop sub (sorted_reverse (weight_options self)) \<bar>t\<bar> 0 = Some y" "n = snd y"
    by (auto simp add: minimize_weight_count_def)
  with minimize_loop_counts_up show ?thesis
    by blast
qed

lemma minimize_loop_unroll:
  "minimize_loop sub (w # ws) r n =
     (if w \<le> r then minimize_loop sub (w # ws) (sub r w) (n + 1)
      else minimize_loop sub ws r n)"
  by (subst (1) minimize_loop.simps, subst subtract_while.simps) simp

lemma minimize_loop_skip:
  "\<forall>x \<in> set skipped. r < x \<Longrightarrow>
     minimize_loop sub (skipped @ rest) r n = minimize_loop sub rest r n"
proof (induction skipped)
  case Nil
  then show ?case by simp
next
  case (Cons x skipped)
  then have "\<not> x \<le> r"
    by simp
  then have "minimize_loop sub (x # skipped @ rest) r n = minimize_loop sub (skipped @ rest) r n"
    by (subst minimize_loop_unroll) simp
  with Cons show ?case
    by simp
qed

lemma greedy_count_step:
  "greedy_count sub options r n =
     (if \<forall>x \<in> set options. r < x then Some n
      else greedy_count sub options (sub r (Max {x \<in> set options. x \<le> r})) (n + 1))"
proof (cases "filter (\<lambda>w. w \<le> r) options")
  case Nil
  then have "\<forall>x \<in> set options. r < x"
    by (auto simp add: filter_empty_conv)
  with Nil show ?thesis
    by (subst greedy_count.simps) simp
next
  case (Cons w ws)
  then have "set (w # ws) = {x \<in> set options. x \<le> r}"
    by (metis set_filter)
  moreover from Cons have "\<not> (\<forall>x \<in> set options. r < x)"
    by (auto simp add: filter_eq_Cons_iff)
  ultimately show ?thesis
    using Cons by (subst greedy_count.simps) auto
qed

lemma largest_fitting:
  assumes "greedy_inv options pre (w # ws) r" and "w \<le> r"
  shows "Max {x \<in> set options. x \<le> r} = w"
proof (rule Max_eqI)
  show "finite {x \<in> set options. x \<le> r}"
    by simp
  from assms show "w \<in> {x \<in> set options. x \<le> r}"
    by (simp add: greedy_inv_def)
  fix y
  assume "y \<in> {x \<in> set options. x \<le> r}"
  with assms(1) have "y = w \<or> y \<in> set ws"
    by (auto simp add: greedy_inv_def)
  moreover from assms(1) have "\<forall>x \<in> set ws. x \<le> w"
    by (auto simp add: greedy_inv_def sorted_append)
  ultimately show "y \<le> w"
    by auto
qed

lemma greedy_count_fits:
  assumes "greedy_inv options pre (w # ws) r" and "w \<le> r"
  shows "greedy_count sub options r n = greedy_count sub options (sub r w) (n + 1)"
proof -
  from assms have "\<not> (\<forall>x \<in> set options. r < x)"
    by (auto simp add: greedy_inv_def)
  with largest_fitting [OF assms] show ?thesis
    by (subst greedy_count_step) auto
qed

lemma greedy_inv_fits:
  assumes "greedy_inv options pre (w # ws) r" and "w \<le> r" and "lowers sub options"
  shows "greedy_inv options pre (w # ws) (sub r w)"
proof -
  from assms(1) have "w \<in> set options"
    by (simp add: greedy_inv_def)
  with assms(2,3) have "0 \<le> sub r w" "sub r w \<le> r"
    by (auto simp add: lowers_def)
  with assms(1) show ?thesis
    by (auto simp add: greedy_inv_def)
qed

lemma greedy_inv_next:
  assumes "greedy_inv options pre (w # ws) r" and "\<not> w \<le> r"
  shows "greedy_inv options (pre @ [w]) ws r"
  using assms by (auto simp add: greedy_inv_def)

text \<open>One run of the inner loop is a run of greedy steps with the current option.\<close>

lemma subtract_while_greedy:
  assumes low: "lowers sub options"
    and run: "subtract_while sub w r n = Some y"
    and inv: "greedy_inv options pre (w # ws) r"
  shows "greedy_count sub options r n = greedy_count sub options (fst y) (snd y) \<and>
     greedy_inv options (pre @ [w]) ws (fst y)"
proof -
  have "sub = sub \<and> w = w \<and> greedy_inv options pre (w # ws) r \<longrightarrow>
      greedy_count sub options r n = greedy_count sub options (fst y) (snd y) \<and>
      greedy_inv options (pre @ [w]) ws (fst y)"
  proof (rule subtract_while.raw_induct
      [where P = "\<lambda>sub' w' r n y. sub' = sub \<and> w' = w \<and> greedy_inv options pre (w # ws) r \<longrightarrow>
         greedy_count sub options r n = greedy_count sub options (fst y) (snd y) \<and>
         greedy_inv options (pre @ [w]) ws (fst y)", OF _ run])
    fix f :: "(real \<Rightarrow> real \<Rightarrow> real) \<Rightarrow> real \<Rightarrow> real \<Rightarrow> int \<Rightarrow> (real \<times> int) option"
      and sub' w' r n y
    assume IH: "\<And>sub' w' r n y. f sub' w' r n = Some y \<Longrightarrow>
        sub' = sub \<and> w' = w \<and> greedy_inv options pre (w # ws) r \<longrightarrow>
        greedy_count sub options r n = greedy_count sub options (fst y) (snd y) \<and>
        greedy_inv options (pre @ [w]) ws (fst y)"
      and eq: "(if w' \<le> r then f sub' w' (sub' r w') (n + 1) else Some (r, n)) = Some y"
    show "sub' = sub \<and> w' = w \<and> greedy_inv options pre (w # ws) r \<longrightarrow>
        greedy_count sub options r n = greedy_count sub options (fst y) (snd y) \<and>
        greedy_inv options (pre @ [w]) ws (fst y)"
    proof (intro impI, elim conjE)
      assume same: "sub' = sub" "w' = w" and here: "greedy_inv options pre (w # ws) r"
      show "greedy_count sub options r n = greedy_count sub options (fst y) (snd y) \<and>
          greedy_inv options (pre @ [w]) ws (fst y)"
      proof (cases "w \<le> r")
        case True
        with eq same have "f sub w (sub r w) (n + 1) = Some y"
          by simp
        from IH [OF this] greedy_inv_fits [OF here True low]
        have "greedy_count sub options (sub r w) (n + 1) =
            greedy_count sub options (fst y) (snd y) \<and>
            greedy_inv options (pre @ [w]) ws (fst y)"
          by simp
        with greedy_count_fits [OF here True, of sub n] show ?thesis
          by simp
      next
        case False
        with eq same have "y = (r, n)"
          by simp
        with greedy_inv_next [OF here False] show ?thesis
          by simp
      qed
    qed
  qed
  with inv show ?thesis
    by simp
qed

text \<open>When the code returns a count, the greedy procedure returns the same count.\<close>

lemma minimize_loop_greedy:
  assumes "lowers sub options"
  shows "greedy_inv options pre suf r \<Longrightarrow> minimize_loop sub suf r n = Some y \<Longrightarrow>
     greedy_count sub options r n = Some (snd y)"
proof (induction suf arbitrary: pre r n)
  case Nil
  then have "\<forall>x \<in> set options. r < x" and "y = (r, n)"
    by (simp_all add: greedy_inv_def)
  then show ?case
    by (subst greedy_count_step) simp
next
  case (Cons w ws)
  from Cons.prems(2) obtain r1 n1 where
    inner: "subtract_while sub w r n = Some (r1, n1)"
    and rest: "minimize_loop sub ws r1 n1 = Some y"
    by (auto split: option.splits)
  from subtract_while_greedy [OF assms inner Cons.prems(1)]
  have "greedy_count sub options r n = greedy_count sub options r1 n1"
    and "greedy_inv options (pre @ [w]) ws r1"
    by simp_all
  with Cons.IH [OF _ rest, of "pre @ [w]"] show ?case
    by simp
qed

text \<open>When the greedy procedure returns a count, the code returns the same count.\<close>

lemma greedy_minimize_loop:
  assumes low: "lowers sub options"
    and run: "greedy_count sub options r n = Some k"
    and inv: "greedy_inv options pre suf r"
  shows "\<exists>r'. minimize_loop sub suf r n = Some (r', k)"
proof -
  have "sub = sub \<and> options = options \<longrightarrow>
      (\<forall>pre suf. greedy_inv options pre suf r \<longrightarrow>
         (\<exists>r'. minimize_loop sub suf r n = Some (r', k)))"
  proof (rule greedy_count.raw_induct
      [where P = "\<lambda>sub' options' r n k. sub' = sub \<and> options' = options \<longrightarrow>
         (\<forall>pre suf. greedy_inv options pre suf r \<longrightarrow>
            (\<exists>r'. minimize_loop sub suf r n = Some (r', k)))", OF _ run])
    fix f :: "(real \<Rightarrow> real \<Rightarrow> real) \<Rightarrow> real list \<Rightarrow> real \<Rightarrow> int \<Rightarrow> int option"
      and sub' options' r n k
    assume IH: "\<And>sub' options' r n k. f sub' options' r n = Some k \<Longrightarrow>
        sub' = sub \<and> options' = options \<longrightarrow>
        (\<forall>pre suf. greedy_inv options pre suf r \<longrightarrow>
           (\<exists>r'. minimize_loop sub suf r n = Some (r', k)))"
      and eq: "(case filter (\<lambda>w. w \<le> r) options' of
          [] \<Rightarrow> Some n
        | w # ws \<Rightarrow> f sub' options' (sub' r (Max (set (w # ws)))) (n + 1)) = Some k"
    show "sub' = sub \<and> options' = options \<longrightarrow>
        (\<forall>pre suf. greedy_inv options pre suf r \<longrightarrow>
           (\<exists>r'. minimize_loop sub suf r n = Some (r', k)))"
    proof (intro impI allI, elim conjE)
      fix pre suf
      assume same: "sub' = sub" "options' = options" and here: "greedy_inv options pre suf r"
      show "\<exists>r'. minimize_loop sub suf r n = Some (r', k)"
      proof (cases "filter (\<lambda>w. w \<le> r) options")
        case Nil
        with eq same have "k = n"
          by simp
        moreover from Nil have "\<forall>x \<in> set options. r < x"
          by (auto simp add: filter_empty_conv)
        with here have "\<forall>x \<in> set suf. r < x"
          by (simp add: greedy_inv_def)
        from minimize_loop_skip [OF this, of sub "[]" n]
        have "minimize_loop sub suf r n = Some (r, n)"
          by simp
        ultimately show ?thesis
          by simp
      next
        case (Cons a as)
        let ?skipped = "takeWhile (\<lambda>x. r < x) suf"
        let ?rest = "dropWhile (\<lambda>x. r < x) suf"
        have split: "suf = ?skipped @ ?rest"
          by simp
        have skipped: "\<forall>x \<in> set ?skipped. r < x"
          by (auto dest: set_takeWhileD)
        from Cons have "a \<in> set options" "a \<le> r"
          by (auto simp add: filter_eq_Cons_iff)
        with here have "a \<in> set suf"
          by (auto simp add: greedy_inv_def)
        with \<open>a \<le> r\<close> have "?rest \<noteq> []"
          by (auto simp add: dropWhile_eq_Nil_conv not_less intro: bexI [of _ a])
        then obtain w ws where rest: "?rest = w # ws"
          by (cases ?rest) auto
        then have fits: "w \<le> r"
          using hd_dropWhile [of "\<lambda>x. r < x" suf] by (auto simp add: not_less)
        from split rest have suf: "suf = ?skipped @ w # ws"
          by simp
        have there: "greedy_inv options (pre @ ?skipped) (w # ws) r"
          using here skipped unfolding greedy_inv_def
          by (subst (asm) (1 2) suf) auto
        have "Max (set (a # as)) = Max {x \<in> set options. x \<le> r}"
          using Cons by (metis set_filter)
        also have "\<dots> = w"
          using there fits by (rule largest_fitting)
        finally have "f sub options (sub r w) (n + 1) = Some k"
          using eq same Cons by simp
        from IH [OF this] greedy_inv_fits [OF there fits low]
        obtain r' where "minimize_loop sub (w # ws) (sub r w) (n + 1) = Some (r', k)"
          by blast
        with fits have "minimize_loop sub (w # ws) r n = Some (r', k)"
          by (subst minimize_loop_unroll) simp
        with minimize_loop_skip [OF skipped, of sub "w # ws" n]
        have "minimize_loop sub (?skipped @ w # ws) r n = Some (r', k)"
          by simp
        with suf show ?thesis
          by metis
      qed
    qed
  qed
  with inv show ?thesis
    by blast
qed

lemma greedy_inv_start:
  "0 \<le> r \<Longrightarrow> greedy_inv options [] (sorted_reverse options) r"
  by (simp add: greedy_inv_def sorted_reverse_def)

lemma minimize_weight_count_greedy:
  assumes "lowers sub (weight_options self)"
  shows "minimize_weight_count sub self t = greedy_count sub (weight_options self) \<bar>t\<bar> 0"
proof -
  let ?options = "weight_options self"
  have start: "greedy_inv ?options [] (sorted_reverse ?options) \<bar>t\<bar>"
    by (rule greedy_inv_start) simp
  show ?thesis
  proof (cases "minimize_loop sub (sorted_reverse ?options) \<bar>t\<bar> 0")
    case (Some y)
    from minimize_loop_greedy [OF assms start Some] Some show ?thesis
      by (simp add: minimize_weight_count_def)
  next
    case None
    have "greedy_count sub ?options \<bar>t\<bar> 0 = None"
    proof (rule ccontr)
      assume "greedy_count sub ?options \<bar>t\<bar> 0 \<noteq> None"
      then obtain k where "greedy_count sub ?options \<bar>t\<bar> 0 = Some k"
        by blast
      from greedy_minimize_loop [OF assms this start] None show False
        by simp
    qed
    with None show ?thesis
      by (simp add: minimize_weight_count_def)
  qed
qed

lemma exact_on_minus: "exact_on (-) w r"
  by (simp add: exact_on_def)

lemma lowers_minus: "lowers (-) options \<longleftrightarrow> (\<forall>w \<in> set options. 0 \<le> w)"
proof
  assume low: "lowers (-) options"
  show "\<forall>w \<in> set options. 0 \<le> w"
  proof
    fix w
    assume "w \<in> set options"
    with low have "w - w \<le> w"
      unfolding lowers_def by blast
    then show "0 \<le> w"
      by simp
  qed
next
  assume "\<forall>w \<in> set options. 0 \<le> w"
  then show "lowers (-) options"
    by (auto simp add: lowers_def)
qed

text \<open>
  The proviso on the subtraction is needed. 64-bit floats round \<open>10^16 - 1\<close> to
  \<open>10^16\<close>; with a subtraction that does so, the loop for the option 1 and the
  target \<open>10^16\<close> does not end.
\<close>

lemma minimize_weight_count_absorbed:
  "minimize_weight_count (\<lambda>r w. if r = 10 ^ 16 then r else r - w)
     (new_BalancingWeight [1] ''left'') (10 ^ 16) = None"
proof -
  let ?sub = "\<lambda>r w :: real. if r = 10 ^ 16 then r else r - w"
  have "subtract_while ?sub 1 (10 ^ 16) 0 = None"
    by (rule subtract_while_absorbed) simp_all
  then show ?thesis
    by (simp add: minimize_weight_count_def new_BalancingWeight_def sorted_reverse_def)
qed

text \<open>
  Claim C4, as the code has it. Whatever the subtraction, \<open>minimize_weight_count\<close>
  never returns a negative count. With the single option 1 it returns the floor of the
  absolute value of \<open>target_torque\<close> (the floor of \<open>target_torque\<close> itself when that
  is not negative), provided that the subtractions of 1 from the remaining deficit are
  exact. In general it computes what the greedy procedure of the specification
  computes on the absolute value of \<open>target_torque\<close>, subtracting the largest option
  that fits into the remaining deficit until none fits and counting the subtractions,
  provided that subtracting an option that fits leaves a deficit between 0 and the old
  one, as exact and rounded subtraction do for positive options.
\<close>

theorem minimize_weight_count_greedy_floor:
  "(minimize_weight_count sub self t = Some n \<longrightarrow> 0 \<le> n) \<and>
   (weight_options self = [1] \<and> exact_on sub 1 \<bar>t\<bar> \<longrightarrow>
      minimize_weight_count sub self t = Some \<lfloor>\<bar>t\<bar>\<rfloor>) \<and>
   (weight_options self = [1] \<and> 0 \<le> t \<and> exact_on sub 1 t \<longrightarrow>
      minimize_weight_count sub self t = Some \<lfloor>t\<rfloor>) \<and>
   (lowers sub (weight_options self) \<longrightarrow>
      minimize_weight_count sub self t = greedy_count sub (weight_options self) \<bar>t\<bar> 0)"
proof (intro conjI impI)
  assume "minimize_weight_count sub self t = Some n"
  then show "0 \<le> n"
    by (rule minimize_weight_count_nonnegative)
next
  assume "weight_options self = [1] \<and> exact_on sub 1 \<bar>t\<bar>"
  then show "minimize_weight_count sub self t = Some \<lfloor>\<bar>t\<bar>\<rfloor>"
    by (simp add: minimize_weight_count_unit)
next
  assume "weight_options self = [1] \<and> 0 \<le> t \<and> exact_on sub 1 t"
  then have "weight_options self = [1]" and "exact_on sub 1 \<bar>t\<bar>" and "\<bar>t\<bar> = t"
    by simp_all
  from minimize_weight_count_unit [OF this(1,2)] \<open>\<bar>t\<bar> = t\<close>
  show "minimize_weight_count sub self t = Some \<lfloor>t\<rfloor>"
    by simp
next
  assume "lowers sub (weight_options self)"
  then show "minimize_weight_count sub self t = greedy_count sub (weight_options self) \<bar>t\<bar> 0"
    by (rule minimize_weight_count_greedy)
qed

theorem minimize_weight_count_greedy_floor_witness:
  "minimize_weight_count (-) (new_BalancingWeight [5, 1, 2] ''left'') (17 / 2) = Some 3 \<and>
   lowers (-) [5, 1, 2] \<and>
   greedy_count (-) [5, 1, 2] (17 / 2) 0 = Some 3 \<and>
   exact_on (-) 1 (5 / 2) \<and>
   minimize_weight_count (-) (new_BalancingWeight [1] ''left'') (5 / 2) = Some 2"
proof -
  have run: "minimize_weight_count (-) (new_BalancingWeight [5, 1, 2] ''left'') (17 / 2) = Some 3"
    by (simp add: minimize_weight_count_def new_BalancingWeight_def sorted_reverse_def
        subtract_while.simps)
  have low: "lowers (-) [5, 1, 2]"
    by (simp add: lowers_minus)
  have ex: "exact_on (-) 1 (5 / 2)"
    by (rule exact_on_minus)
  have greedy: "greedy_count (-) [5, 1, 2] (17 / 2) 0 = Some 3"
    using minimize_weight_count_greedy_floor
      [of "(-)" "new_BalancingWeight [5, 1, 2] ''left''" "17 / 2" 3] run low
    by (simp add: new_BalancingWeight_def)
  have unit: "minimize_weight_count (-) (new_BalancingWeight [1] ''left'') (5 / 2) = Some 2"
    using minimize_weight_count_greedy_floor
      [of "(-)" "new_BalancingWeight [1] ''left''" "5 / 2" 2] ex
    by (simp add: new_BalancingWeight_def)
  from run low greedy ex unit show ?thesis
    by simp
qed

text \<open>
  As stated, claim C4 fails on a negative target: with the single option 1 and the
  target -2.5 the count is 2, the floor of 2.5, and not the floor of -2.5, which is -3.
  The two subtractions of this run, 2.5 - 1 and 1.5 - 1, are exact.
\<close>

theorem minimize_weight_count_floor_counterexample:
  "minimize_weight_count (-) (new_BalancingWeight [1] ''left'') (- 5 / 2) = Some 2 \<and>
   \<lfloor>- 5 / 2 :: real\<rfloor> = - 3 \<and>
   minimize_weight_count (-) (new_BalancingWeight [1] ''left'') (- 5 / 2) \<noteq>
     Some \<lfloor>- 5 / 2 :: real\<rfloor>"
  by (simp add: minimize_weight_count_def new_BalancingWeight_def sorted_reverse_def
      subtract_while.simps)

end
